theory Spec2Isabelle
  imports
    Complex_Main
    "HOL-Library.Char_ord"
    "HOL-Library.List_Lexorder"
    "HOL-Library.Multiset"
begin

section \<open>Amplicon utilities: consensus sequences from most-common prefixes\<close>

text \<open>
  A shallow embedding of \<^verbatim>\<open>analysis/amplicon/amplicon_utils.py\<close>.

  Conventions of the embedding.
  \<^item> A Python \<^verbatim>\<open>dict\<close> (also \<^verbatim>\<open>defaultdict\<close>, \<^verbatim>\<open>Counter\<close>) is an association list in
    insertion order: the code iterates over \<^verbatim>\<open>items()\<close> and sorts them with a stable sort,
    so the order of the entries decides ties.
  \<^item> Python integers are \<open>int\<close>. A Python float is a binary64 value (\<open>float\<close> below): the
    quotients and sums of \<^verbatim>\<open>build_cons_seq\<close> are rounded to the nearest double, ties to
    even, as the interpreter rounds them.
  \<^item> An exception is a value of \<open>error\<close>, and a function that can raise returns
    \<open>error + 'a\<close> with \<open>Inl\<close> for the exception.
\<close>

subsection \<open>Errors\<close>

datatype error =
    ZeroDivisionError
  | OverflowError
  | KeyError string
  | SystemExit int
  | UnboundLocalError

subsection \<open>Python numbers\<close>

text \<open>
  A float is a finite binary64 value, given by the rational number it denotes, or one of
  \<^verbatim>\<open>inf\<close>, \<^verbatim>\<open>-inf\<close>, \<^verbatim>\<open>nan\<close>. The two zeros are one value: Python's \<^verbatim>\<open>==\<close> does not tell them
  apart, and a division by either of them raises. A number is an \<^verbatim>\<open>int\<close> or a \<^verbatim>\<open>float\<close>.
\<close>

datatype float = Finite rat | PosInf | NegInf | NaN

datatype number = PyInt int | PyFloat float

text \<open>
  Rounding to binary64. \<open>bit_length n\<close> is the number of binary digits of \<open>n\<close>, and
  \<open>floor_log2 a\<close> is the exponent \<open>k\<close> of a positive rational \<open>a\<close> with \<open>2 ^ k \<le> a < 2 ^ (k + 1)\<close>.
  A double has 53 significant bits, and its last bit is worth \<open>2 ^ (- 1074)\<close> at least, so a
  number \<open>q\<close> is rounded at the bit \<open>e = max (floor_log2 \<bar>q\<bar> - 52) (- 1074)\<close>: the quotient
  of \<open>\<bar>q\<bar>\<close> by \<open>2 ^ e\<close> goes to the nearest integer, a tie to the even one. A result of
  \<open>2 ^ 1024\<close> or more is out of range.
\<close>

fun bit_length :: "nat \<Rightarrow> nat" where
  "bit_length n = (if n = 0 then 0 else Suc (bit_length (n div 2)))"

declare bit_length.simps [simp del]

definition floor_log2 :: "rat \<Rightarrow> int" where
  "floor_log2 a =
     (if 1 \<le> a then int (bit_length (nat \<lfloor>a\<rfloor>)) - 1
      else - int (bit_length (nat (\<lceil>1 / a\<rceil> - 1))))"

definition pow2 :: "int \<Rightarrow> rat" where
  "pow2 e = (if 0 \<le> e then 2 ^ nat e else 1 / 2 ^ nat (- e))"

definition ties_to_even :: "int \<Rightarrow> rat \<Rightarrow> int" where
  "ties_to_even n r =
     (if r < 1 / 2 then n else if 1 / 2 < r then n + 1 else if even n then n else n + 1)"

definition round_half_even :: "rat \<Rightarrow> int" where
  "round_half_even x = ties_to_even \<lfloor>x\<rfloor> (x - of_int \<lfloor>x\<rfloor>)"

definition in_range :: "rat \<Rightarrow> rat \<Rightarrow> float" where
  "in_range q v =
     (if pow2 1024 \<le> v then (if 0 < q then PosInf else NegInf)
      else Finite (if 0 < q then v else - v))"

definition round_at :: "rat \<Rightarrow> int \<Rightarrow> float" where
  "round_at q e = in_range q (of_int (round_half_even (\<bar>q\<bar> / pow2 e)) * pow2 e)"

text \<open>
  \<open>round_double q\<close> is the double nearest to \<open>q\<close>; it is also the value of a decimal
  literal, so that \<^verbatim>\<open>0.8\<close> is \<open>round_double (8 / 10)\<close>.
\<close>

definition round_double :: "rat \<Rightarrow> float" where
  "round_double q =
     (if q = 0 then Finite 0 else round_at q (max (floor_log2 \<bar>q\<bar> - 52) (- 1074)))"

text \<open>
  The conversion of an \<^verbatim>\<open>int\<close> to a \<^verbatim>\<open>float\<close> rounds in the same way and raises when the
  result is out of range (\<^verbatim>\<open>int too large to convert to float\<close>).
\<close>

definition float_of_int :: "int \<Rightarrow> error + float" where
  "float_of_int n =
     (case round_double (of_int n) of
        Finite v \<Rightarrow> Inr (Finite v)
      | _ \<Rightarrow> Inl OverflowError)"

text \<open>
  \<^verbatim>\<open>a / b\<close> on two \<^verbatim>\<open>int\<close>s: a zero divisor raises first; the quotient is rounded once,
  from the exact quotient, and raises when it is out of range
  (\<^verbatim>\<open>integer division result too large for a float\<close>).
\<close>

definition int_true_div :: "int \<Rightarrow> int \<Rightarrow> error + float" where
  "int_true_div a b =
     (if b = 0 then Inl ZeroDivisionError
      else case round_double (of_int a / of_int b) of
             Finite v \<Rightarrow> Inr (Finite v)
           | _ \<Rightarrow> Inl OverflowError)"

text \<open>
  \<^verbatim>\<open>x / y\<close> on two \<^verbatim>\<open>float\<close>s: a zero divisor raises, whatever \<open>x\<close> is; otherwise the
  quotient is the one of IEEE 754, which overflows to an infinity without raising.
\<close>

fun ieee_div :: "float \<Rightarrow> float \<Rightarrow> float" where
  "ieee_div NaN y = NaN"
| "ieee_div x NaN = NaN"
| "ieee_div (Finite a) (Finite b) = round_double (a / b)"
| "ieee_div (Finite a) y = Finite 0"
| "ieee_div PosInf (Finite b) = (if 0 < b then PosInf else NegInf)"
| "ieee_div NegInf (Finite b) = (if 0 < b then NegInf else PosInf)"
| "ieee_div x y = NaN"

definition float_div :: "float \<Rightarrow> float \<Rightarrow> error + float" where
  "float_div x y = (if y = Finite 0 then Inl ZeroDivisionError else Inr (ieee_div x y))"

text \<open>
  Python's \<^verbatim>\<open>a / b\<close> where \<open>a\<close> is an \<^verbatim>\<open>int\<close>, as at the three divisions of
  \<^verbatim>\<open>build_cons_seq\<close>. Beside a \<^verbatim>\<open>float\<close> the \<^verbatim>\<open>int\<close> is converted first, so that its overflow
  comes before the test of the divisor.
\<close>

fun true_div :: "int \<Rightarrow> number \<Rightarrow> error + float" where
  "true_div a (PyInt b) = int_true_div a b"
| "true_div a (PyFloat y) =
     (case float_of_int a of
        Inl e \<Rightarrow> Inl e
      | Inr x \<Rightarrow> float_div x y)"

text \<open>\<^verbatim>\<open>x + y\<close> on two \<^verbatim>\<open>float\<close>s; it never raises.\<close>

fun float_add :: "float \<Rightarrow> float \<Rightarrow> float" where
  "float_add NaN y = NaN"
| "float_add x NaN = NaN"
| "float_add (Finite a) (Finite b) = round_double (a + b)"
| "float_add PosInf NegInf = NaN"
| "float_add NegInf PosInf = NaN"
| "float_add PosInf y = PosInf"
| "float_add x PosInf = PosInf"
| "float_add NegInf y = NegInf"
| "float_add x NegInf = NegInf"

text \<open>
  The order of the floats as a sort sees it: \<^verbatim>\<open>-inf\<close>, the finite values, \<^verbatim>\<open>inf\<close>.
  Python's sort compares with \<^verbatim>\<open><\<close>, which is false whenever \<^verbatim>\<open>nan\<close> takes part: a list
  whose keys are all \<^verbatim>\<open>nan\<close> keeps its order, like a list of equal keys, and so it does
  here, where \<^verbatim>\<open>nan\<close> is put below \<^verbatim>\<open>-inf\<close>. (The proportions of one position are all
  \<^verbatim>\<open>nan\<close> or none is: lemma \<open>cons_dict_loop_nan\<close>.)
\<close>

fun float_rank :: "float \<Rightarrow> nat" where
  "float_rank NaN = 0"
| "float_rank NegInf = 1"
| "float_rank (Finite q) = 2"
| "float_rank PosInf = 3"

fun float_mag :: "float \<Rightarrow> rat" where
  "float_mag (Finite q) = q"
| "float_mag x = 0"

instantiation float :: linorder
begin

definition less_eq_float :: "float \<Rightarrow> float \<Rightarrow> bool" where
  "less_eq_float x y \<longleftrightarrow>
     float_rank x < float_rank y \<or> (float_rank x = float_rank y \<and> float_mag x \<le> float_mag y)"

definition less_float :: "float \<Rightarrow> float \<Rightarrow> bool" where
  "less_float x y \<longleftrightarrow>
     float_rank x < float_rank y \<or> (float_rank x = float_rank y \<and> float_mag x < float_mag y)"

instance
proof
  fix x y z :: float
  show "x < y \<longleftrightarrow> x \<le> y \<and> \<not> y \<le> x"
    by (auto simp: less_eq_float_def less_float_def)
  show "x \<le> x"
    by (simp add: less_eq_float_def)
  show "x \<le> y \<Longrightarrow> y \<le> z \<Longrightarrow> x \<le> z"
    by (auto simp: less_eq_float_def)
  show "x \<le> y \<Longrightarrow> y \<le> x \<Longrightarrow> x = y"
    by (cases x; cases y) (auto simp: less_eq_float_def)
  show "x \<le> y \<or> y \<le> x"
    by (auto simp: less_eq_float_def)
qed

end

instantiation float :: uminus
begin

fun uminus_float :: "float \<Rightarrow> float" where
  "uminus_float (Finite q) = Finite (- q)"
| "uminus_float PosInf = NegInf"
| "uminus_float NegInf = PosInf"
| "uminus_float NaN = NaN"

instance ..

end

text \<open>
  Python's comparisons of two floats: false whenever \<^verbatim>\<open>nan\<close> takes part. An \<^verbatim>\<open>int\<close> is
  compared with a \<^verbatim>\<open>float\<close> by its exact value, with no rounding; \<open>is_zero\<close> is \<^verbatim>\<open>x == 0\<close>.
\<close>

definition float_lt :: "float \<Rightarrow> float \<Rightarrow> bool" where
  "float_lt x y \<longleftrightarrow> x \<noteq> NaN \<and> y \<noteq> NaN \<and> x < y"

definition float_le :: "float \<Rightarrow> float \<Rightarrow> bool" where
  "float_le x y \<longleftrightarrow> x \<noteq> NaN \<and> y \<noteq> NaN \<and> x \<le> y"

definition float_ge :: "float \<Rightarrow> float \<Rightarrow> bool" where
  "float_ge x y \<longleftrightarrow> float_le y x"

fun value_of :: "number \<Rightarrow> float" where
  "value_of (PyInt n) = Finite (of_int n)"
| "value_of (PyFloat x) = x"

definition number_le :: "number \<Rightarrow> number \<Rightarrow> bool" where
  "number_le a b \<longleftrightarrow> float_le (value_of a) (value_of b)"

definition is_zero :: "number \<Rightarrow> bool" where
  "is_zero x \<longleftrightarrow> value_of x = Finite 0"

subsection \<open>Dictionaries in insertion order\<close>

type_synonym ('k, 'v) dict = "('k \<times> 'v) list"

text \<open>\<^verbatim>\<open>d[k] = v\<close>: an existing key keeps its place, a new key goes to the end.\<close>

fun dict_set :: "('k, 'v) dict \<Rightarrow> 'k \<Rightarrow> 'v \<Rightarrow> ('k, 'v) dict" where
  "dict_set [] k v = [(k, v)]"
| "dict_set ((k', v') # d) k v =
     (if k' = k then (k, v) # d else (k', v') # dict_set d k v)"

text \<open>\<^verbatim>\<open>d[k] += c\<close> on a \<^verbatim>\<open>defaultdict(int)\<close> or a \<^verbatim>\<open>Counter\<close>: a missing key starts at 0.\<close>

fun dict_add :: "('k, int) dict \<Rightarrow> 'k \<Rightarrow> int \<Rightarrow> ('k, int) dict" where
  "dict_add [] k c = [(k, 0 + c)]"
| "dict_add ((k', v') # d) k c =
     (if k' = k then (k', v' + c) # d else (k', v') # dict_add d k c)"

text \<open>\<^verbatim>\<open>dict(items)\<close>: the pairs are stored one after the other.\<close>

definition dict_of_items :: "('k \<times> 'v) list \<Rightarrow> ('k, 'v) dict" where
  "dict_of_items items = foldl (\<lambda>d (k, v). dict_set d k v) [] items"

text \<open>
  \<^verbatim>\<open>sorted(items, key=lambda x: x[1], reverse=True)\<close>: Python's sort is stable, also
  with \<^verbatim>\<open>reverse=True\<close>, so equal values keep the order of the items. On numbers this
  is the stable ascending sort on the negated value.
\<close>

definition sorted_by_value_desc :: "('k \<times> 'v::{linorder, uminus}) list \<Rightarrow> ('k \<times> 'v) list" where
  "sorted_by_value_desc items = sort_key (\<lambda>x. - snd x) items"

subsection \<open>Conservation aggregator: \<^verbatim>\<open>build_mcp_cons_dict_list\<close>\<close>

text \<open>
  The inner loop over the keys of the window frequency table, for one position \<open>i\<close>.
  Every key comes from \<^verbatim>\<open>mcp_count_dict.keys()\<close>, so \<^verbatim>\<open>mcp_count_dict[mcp]\<close> is the value
  stored beside it. The symbol \<^verbatim>\<open>mcp[i]\<close> is a string of one character; the index is in
  range because \<open>i < mcp_len \<le> len(mcp)\<close> where it is read.
\<close>

fun index_base_loop ::
  "nat \<Rightarrow> nat \<Rightarrow> (string, int) dict \<Rightarrow> (string, int) dict \<Rightarrow> (string, int) dict" where
  "index_base_loop mcp_len i [] index_base_dict = index_base_dict"
| "index_base_loop mcp_len i ((mcp, n) # rest) index_base_dict =
     (if length mcp < mcp_len then index_base_loop mcp_len i rest index_base_dict
      else index_base_loop mcp_len i rest (dict_add index_base_dict [mcp ! i] n))"

definition build_mcp_cons_dict_list ::
  "(string, int) dict \<Rightarrow> nat \<Rightarrow> (string, int) dict list" where
  "build_mcp_cons_dict_list mcp_count_dict mcp_len =
     map (\<lambda>i. index_base_loop mcp_len i mcp_count_dict []) [0..<mcp_len]"

text \<open>The total count of a mapping, and the windows that are long enough.\<close>

definition total_count :: "('k, int) dict \<Rightarrow> int" where
  "total_count d = sum_list (map snd d)"

definition qualifying_count :: "(string, int) dict \<Rightarrow> nat \<Rightarrow> int" where
  "qualifying_count mcp_count_dict mcp_len =
     sum_list (map snd (filter (\<lambda>(mcp, n). mcp_len \<le> length mcp) mcp_count_dict))"

subsection \<open>Consensus resolver: \<^verbatim>\<open>build_cons_seq\<close>\<close>

text \<open>
  Modelled from the spec: the constant \<^verbatim>\<open>_AMBIGUOUS_BASES_DICT_REV\<close> of
  \<^verbatim>\<open>constants/regex_ambiguous_bases.py\<close>, which maps the alphabetically sorted,
  comma-joined list of concrete bases to its single IUPAC symbol. It covers every subset
  of A, C, G, T of size two and more, and the four singletons. The resolver below takes
  the registry as a parameter; this table is the instance used at concrete inputs.
\<close>

definition AMBIGUOUS_BASES_DICT_REV :: "string \<rightharpoonup> string" where
  "AMBIGUOUS_BASES_DICT_REV = map_of
     [(''A,G'', ''R''), (''C,T'', ''Y''), (''C,G'', ''S''), (''A,T'', ''W''),
      (''G,T'', ''K''), (''A,C'', ''M''), (''C,G,T'', ''B''), (''A,G,T'', ''D''),
      (''A,C,T'', ''H''), (''A,C,G'', ''V''), (''A,C,G,T'', ''N''),
      (''A'', ''A''), (''C'', ''C''), (''G'', ''G''), (''T'', ''T'')]"

text \<open>\<^verbatim>\<open>base in ("A", "T", "C", "G")\<close>\<close>

definition is_base :: "string \<Rightarrow> bool" where
  "is_base base \<longleftrightarrow> base \<in> set [''A'', ''T'', ''C'', ''G'']"

text \<open>
  Lines 116 to 126: the loop over \<^verbatim>\<open>count_dict.items()\<close>, with the state
  \<open>(cons_dict, max_count)\<close>; \<open>cnt\<close> is the source's \<^verbatim>\<open>count\<close>. The read count is an \<^verbatim>\<open>int\<close> or a
  \<^verbatim>\<open>float\<close>, the counts and the override are \<^verbatim>\<open>int\<close>s. The divisions of this loop are
  outside the \<^verbatim>\<open>try\<close> block.
\<close>

fun cons_dict_loop ::
  "number \<Rightarrow> int option \<Rightarrow> (string, int) dict \<Rightarrow> (string, float) dict \<times> int \<Rightarrow>
   error + ((string, float) dict \<times> int)" where
  "cons_dict_loop read_count max_line_count [] (cons_dict, max_count) =
     Inr (cons_dict, max_count)"
| "cons_dict_loop read_count max_line_count ((base, cnt) # rest) (cons_dict, max_count) =
     (if \<not> is_base base then
        cons_dict_loop read_count max_line_count rest (cons_dict, max_count)
      else
        case (case max_line_count of
                None \<Rightarrow> true_div cnt read_count
              | Some m \<Rightarrow> true_div cnt (PyInt m)) of
          Inl e \<Rightarrow> Inl e
        | Inr prop \<Rightarrow>
            cons_dict_loop read_count max_line_count rest
              (dict_set cons_dict base prop,
               if cnt > max_count then cnt else max_count))"

text \<open>
  Lines 139 to 143: append the base, add its proportion to the running float sum, stop
  once \<^verbatim>\<open>curr_prop >= cons_threshold\<close> holds.
\<close>

fun cons_bases_loop ::
  "(string \<times> float) list \<Rightarrow> number \<Rightarrow> float \<Rightarrow> string list \<Rightarrow> string list" where
  "cons_bases_loop [] cons_threshold curr_prop cons_bases = cons_bases"
| "cons_bases_loop ((base, prop) # rest) cons_threshold curr_prop cons_bases =
     (if float_ge (float_add curr_prop prop) (value_of cons_threshold) then cons_bases @ [base]
      else cons_bases_loop rest cons_threshold (float_add curr_prop prop) (cons_bases @ [base]))"

text \<open>\<^verbatim>\<open>sep.join(xs)\<close>\<close>

fun join :: "string \<Rightarrow> string list \<Rightarrow> string" where
  "join sep [] = []"
| "join sep [x] = x"
| "join sep (x # y # ys) = x @ sep @ join sep (y # ys)"

text \<open>
  Lines 133 to 143: the candidate bases of one position, in the order of selection;
  \<open>curr_prop\<close> starts at 0.0.
\<close>

definition select_cons_bases :: "(string, float) dict \<Rightarrow> number \<Rightarrow> string list" where
  "select_cons_bases cons_dict cons_threshold =
     (let sorted_cons_dict = dict_of_items (sorted_by_value_desc cons_dict)
      in cons_bases_loop sorted_cons_dict cons_threshold (Finite 0) [])"

text \<open>
  Lines 131 to 152: the body of the \<^verbatim>\<open>try\<close> block. It returns \<open>max_prop\<close> and the
  extended \<open>cons_seq\<close>. A \<open>ZeroDivisionError\<close> can only come from its first statement, where
  \<open>cons_seq\<close> is still unchanged.
\<close>

definition try_body ::
  "(string \<rightharpoonup> string) \<Rightarrow> number \<Rightarrow> number \<Rightarrow> (string, float) dict \<Rightarrow> int \<Rightarrow> string \<Rightarrow>
   error + (float \<times> string)" where
  "try_body registry read_count cons_threshold cons_dict max_count cons_seq =
     (case true_div max_count read_count of
        Inl e \<Rightarrow> Inl e
      | Inr max_prop \<Rightarrow>
          (let cons_bases = sort (select_cons_bases cons_dict cons_threshold)
           in if length cons_bases = 1 then Inr (max_prop, cons_seq @ cons_bases ! 0)
              else
                (let amb_string = join '','' cons_bases
                 in case registry amb_string of
                      None \<Rightarrow> Inl (KeyError amb_string)
                    | Some amb_base \<Rightarrow> Inr (max_prop, cons_seq @ amb_base))))"

text \<open>
  Lines 107 to 157: the loop over \<open>cons_list\<close>, with the state
  \<open>(counter, cons_seq, cons_confs)\<close>. Only a \<open>ZeroDivisionError\<close> of the \<^verbatim>\<open>try\<close> block is
  caught; it sets \<open>max_prop\<close> to 0.0 and skips the rest of the block.
\<close>

fun cons_list_loop ::
  "(string \<rightharpoonup> string) \<Rightarrow> number \<Rightarrow> number \<Rightarrow> int list \<Rightarrow> int option \<Rightarrow>
   (string, int) dict list \<Rightarrow> int \<times> string \<times> float list \<Rightarrow> error + (string \<times> float list)" where
  "cons_list_loop registry read_count cons_threshold do_not_include max_line_count []
     (counter, cons_seq, cons_confs) = Inr (cons_seq, cons_confs)"
| "cons_list_loop registry read_count cons_threshold do_not_include max_line_count
     (count_dict # rest) (counter, cons_seq, cons_confs) =
     (if counter \<in> set do_not_include then
        cons_list_loop registry read_count cons_threshold do_not_include max_line_count rest
          (counter + 1, cons_seq @ ''N'', cons_confs)
      else
        case cons_dict_loop read_count max_line_count count_dict ([], 0) of
          Inl e \<Rightarrow> Inl e
        | Inr (cons_dict, max_count) \<Rightarrow>
            (case try_body registry read_count cons_threshold cons_dict max_count cons_seq of
               Inl ZeroDivisionError \<Rightarrow>
                 cons_list_loop registry read_count cons_threshold do_not_include
                   max_line_count rest (counter + 1, cons_seq, cons_confs @ [Finite 0])
             | Inl e \<Rightarrow> Inl e
             | Inr (max_prop, cons_seq') \<Rightarrow>
                 cons_list_loop registry read_count cons_threshold do_not_include
                   max_line_count rest (counter + 1, cons_seq', cons_confs @ [max_prop])))"

definition build_cons_seq ::
  "(string \<rightharpoonup> string) \<Rightarrow> (string, int) dict list \<Rightarrow> number \<Rightarrow> number \<Rightarrow> int list option \<Rightarrow>
   int \<Rightarrow> int option \<Rightarrow> error + (string \<times> float list)" where
  "build_cons_seq registry cons_list read_count cons_threshold do_not_include counter
     max_line_count =
     cons_list_loop registry read_count cons_threshold
       (case do_not_include of None \<Rightarrow> [] | Some positions \<Rightarrow> positions)
       max_line_count cons_list (counter, [], [])"

subsection \<open>Prefix extractor: \<^verbatim>\<open>fetch_mcp\<close>\<close>

text \<open>
  The file is read in text mode: it is the list of its lines. \<^verbatim>\<open>line.strip()\<close> removes
  the white space of Python's \<^verbatim>\<open>str\<close> at both ends (characters are taken as code points
  below 256).
\<close>

definition str_isspace :: "char \<Rightarrow> bool" where
  "str_isspace c \<longleftrightarrow>
     (of_char c :: nat) \<in> set [9, 10, 11, 12, 13, 28, 29, 30, 31, 32, 133, 160]"

definition strip :: "(char \<Rightarrow> bool) \<Rightarrow> string \<Rightarrow> string" where
  "strip isspace s = rev (dropWhile isspace (rev (dropWhile isspace s)))"

text \<open>
  \<^verbatim>\<open>xs[lo:hi]\<close>: a negative bound counts from the end, and both bounds are cut to the
  length; a slice never raises.
\<close>

definition py_slice :: "'a list \<Rightarrow> int \<Rightarrow> int \<Rightarrow> 'a list" where
  "py_slice xs lo hi =
     (let n = int (length xs);
          bound = (\<lambda>i. if i < 0 then max (i + n) 0 else min i n)
      in take (nat (bound hi - bound lo)) (drop (nat (bound lo)) xs))"

text \<open>
  Lines 211 to 221: the loop over \<^verbatim>\<open>enumerate(file)\<close>; \<open>reversed\<close> is the source's
  parameter \<^verbatim>\<open>rev\<close>. The cap is tested after every line, after the window of a sequence
  line has been stored.
\<close>

fun fetch_loop ::
  "int \<Rightarrow> int \<Rightarrow> bool \<Rightarrow> int option \<Rightarrow> nat \<Rightarrow> string list \<Rightarrow> string list \<Rightarrow> string list" where
  "fetch_loop prefix_len start reversed max_line_count i [] selected_lines = selected_lines"
| "fetch_loop prefix_len start reversed max_line_count i (raw # rest) selected_lines =
     (let line = strip str_isspace raw;
          selected_lines' =
            (if i mod 4 = 1 then
               (if \<not> reversed then
                  selected_lines @ [py_slice line (start - 1) (start + prefix_len - 1)]
                else
                  (let rev_line = rev line
                   in selected_lines @ [py_slice rev_line (start - 1) (start + prefix_len - 1)]))
             else selected_lines)
      in case max_line_count of
           None \<Rightarrow>
             fetch_loop prefix_len start reversed max_line_count (i + 1) rest selected_lines'
         | Some m \<Rightarrow>
             if int (length selected_lines') > m then selected_lines'
             else fetch_loop prefix_len start reversed max_line_count (i + 1) rest
                    selected_lines')"

text \<open>\<^verbatim>\<open>Counter(xs)\<close>: one entry per distinct element, in the order of first occurrence.\<close>

definition Counter :: "'k list \<Rightarrow> ('k, int) dict" where
  "Counter xs = foldl (\<lambda>d x. dict_add d x 1) [] xs"

definition fetch_mcp ::
  "string list \<Rightarrow> int \<Rightarrow> int \<Rightarrow> bool \<Rightarrow> int option \<Rightarrow> (string, int) dict" where
  "fetch_mcp fastq prefix_len start reversed max_line_count =
     (let selected_lines = fetch_loop prefix_len start reversed max_line_count 0 fastq [];
          sequence_counts = Counter selected_lines
      in dict_of_items (sorted_by_value_desc sequence_counts))"

text \<open>The sequence lines of a file: the lines whose index is 1 modulo 4.\<close>

definition sequence_records :: "string list \<Rightarrow> nat" where
  "sequence_records fastq = length (filter (\<lambda>i. i mod 4 = 1) [0..<length fastq])"

subsection \<open>Read count: \<^verbatim>\<open>get_read_count\<close>\<close>

text \<open>
  The two external commands (\<^verbatim>\<open>zcat | wc -l\<close> for fastq, \<^verbatim>\<open>grep -c\<close> for fasta) are the
  counting step; their standard output, a byte string, is the parameter \<open>counted\<close>. For
  any other \<open>type\<close> no command runs, \<open>stdout\<close> stays empty and \<open>stderr\<close> unbound, so the
  error message itself cannot be built. The result is given as the rational number it
  denotes: the count \<open>n\<close> itself for fasta (an \<^verbatim>\<open>int\<close>), and \<open>n / 4\<close> for fastq (a \<^verbatim>\<open>float\<close>:
  the quotient by 4 of a count below \<open>2 ^ 53\<close> is a double, so that nothing is rounded for
  the number of lines of any file: lemma \<open>int_true_div_quarter\<close>).
\<close>

definition bytes_isspace :: "char \<Rightarrow> bool" where
  "bytes_isspace c \<longleftrightarrow> (of_char c :: nat) \<in> set [9, 10, 11, 12, 13, 32]"

definition isdigit :: "string \<Rightarrow> bool" where
  "isdigit s \<longleftrightarrow> s \<noteq> [] \<and> list_all (\<lambda>c. 48 \<le> (of_char c :: nat) \<and> (of_char c :: nat) \<le> 57) s"

text \<open>\<^verbatim>\<open>int(s)\<close> on a string of decimal digits.\<close>

definition int_of_digits :: "string \<Rightarrow> int" where
  "int_of_digits s = foldl (\<lambda>n c. 10 * n + (of_char c - 48)) 0 s"

definition get_read_count :: "string option \<Rightarrow> string \<Rightarrow> error + rat" where
  "get_read_count counted type =
     (let stdout = (if type = ''fastq'' \<or> type = ''fasta'' then counted else Some []);
          read_count = (case stdout of None \<Rightarrow> [] | Some out \<Rightarrow> strip bytes_isspace out)
      in if \<not> isdigit read_count then
           (if type = ''fastq'' \<or> type = ''fasta'' then Inl (SystemExit 1)
            else Inl UnboundLocalError)
         else
           (let read_count = int_of_digits read_count
            in if type = ''fastq'' then Inr (of_int read_count / 4)
               else Inr (of_int read_count)))"

text \<open>The sequence lines among \<open>n\<close> lines that start at index \<open>i\<close>.\<close>

definition records_from :: "nat \<Rightarrow> nat \<Rightarrow> nat" where
  "records_from i n = length (filter (\<lambda>j. j mod 4 = 1) [i..<i + n])"

subsection \<open>The candidate selection in the words of the specification\<close>



section \<open>Properties\<close>

subsection \<open>Python numbers\<close>

lemma bit_length_0 [simp]: "bit_length 0 = 0"
  by (simp add: bit_length.simps)

lemma bit_length_1 [simp]: "bit_length (Suc 0) = 1"
  by (simp add: bit_length.simps)

lemma bit_length_numeral [simp]:
  "bit_length (numeral k) = Suc (bit_length (numeral k div 2))"
  by (subst bit_length.simps) simp

lemma floor_rat_numeral_div [simp]:
  "\<lfloor>numeral a / numeral b :: rat\<rfloor> = numeral a div numeral b"
  using floor_divide_of_int_eq [of "numeral a" "numeral b", where ?'a = rat] by simp

lemma floor_rat_one_div [simp]:
  "\<lfloor>1 / numeral b :: rat\<rfloor> = 1 div numeral b"
  using floor_divide_of_int_eq [of 1 "numeral b", where ?'a = rat] by simp

lemma ceiling_rat_numeral_div [simp]:
  "\<lceil>numeral a / numeral b :: rat\<rceil> = - (- numeral a div numeral b)"
  using floor_divide_of_int_eq [of "- numeral a" "numeral b", where ?'a = rat]
  by (simp add: ceiling_def)

lemma ceiling_rat_one_div [simp]:
  "\<lceil>1 / numeral b :: rat\<rceil> = - (- 1 div numeral b)"
  using floor_divide_of_int_eq [of "- 1" "numeral b", where ?'a = rat]
  by (simp add: ceiling_def)

lemmas float_defs =
  round_double_def round_at_def in_range_def floor_log2_def pow2_def round_half_even_def
  ties_to_even_def float_of_int_def int_true_div_def float_div_def
  float_lt_def float_le_def float_ge_def less_eq_float_def less_float_def

text \<open>
  Values of the rounding, as the interpreter prints them with \<^verbatim>\<open>as_integer_ratio\<close>: the
  doubles of 0.1 and 1/3, the sum 0.7 + 0.1, and two integers above \<open>2 ^ 53\<close>, of which the
  first is a tie.
\<close>

lemma round_double_values:
  "round_double (1 / 10) = Finite (3602879701896397 / 36028797018963968)"
  "round_double (1 / 3) = Finite (6004799503160661 / 18014398509481984)"
  "float_add (round_double (7 / 10)) (round_double (1 / 10)) =
     Finite (7205759403792793 / 9007199254740992)"
  "round_double 9007199254740993 = Finite 9007199254740992"
  "round_double 9007199254740995 = Finite 9007199254740996"
  by (simp_all add: float_defs)

text \<open>
  The quotient by 4 of a count below \<open>2 ^ 53\<close> is a double: the division returns it
  unrounded.
\<close>

lemma bit_length_le: "n < 2 ^ k \<Longrightarrow> bit_length n \<le> k"
proof (induction k arbitrary: n)
  case 0
  then show ?case by simp
next
  case (Suc k)
  show ?case
  proof (cases "n = 0")
    case True
    then show ?thesis by simp
  next
    case False
    from Suc.prems have "n div 2 < 2 ^ k" by simp
    from Suc.IH [OF this] False show ?thesis
      by (subst bit_length.simps) simp
  qed
qed

lemma floor_log2_less: "a < 2 ^ Suc k \<Longrightarrow> floor_log2 a \<le> int k"
proof (cases "1 \<le> a")
  case True
  assume "a < 2 ^ Suc k"
  then have "a < of_int (2 ^ Suc k)" by simp
  then have "\<lfloor>a\<rfloor> < 2 ^ Suc k" by (simp only: floor_less_iff)
  moreover have "0 \<le> \<lfloor>a\<rfloor>" using True by simp
  ultimately have "nat \<lfloor>a\<rfloor> < 2 ^ Suc k"
    by (simp add: nat_less_iff)
  from bit_length_le [OF this] True show ?thesis
    by (simp add: floor_log2_def)
next
  case False
  then show ?thesis by (simp add: floor_log2_def)
qed

lemma round_half_even_of_int: "round_half_even (of_int m) = m"
  by (simp add: round_half_even_def ties_to_even_def)

lemma round_at_quarter:
  assumes "0 < n" and "n < 2 ^ 53" and "e \<le> - 2"
  shows "round_at (of_int n / 4) e = Finite (of_int n / 4)"
proof -
  define j where "j = nat (- e) - 2"
  with assms(3) have e: "nat (- e) = j + 2" by simp
  from assms(3) have pow: "pow2 e = 1 / (4 * 2 ^ j)"
    by (simp add: pow2_def e)
  have "\<bar>of_int n / 4 :: rat\<bar> / pow2 e = of_int (n * 2 ^ j)"
    using assms(1) by (simp add: pow)
  then have "round_half_even (\<bar>of_int n / 4 :: rat\<bar> / pow2 e) = n * 2 ^ j"
    by (simp only: round_half_even_of_int)
  then have v: "of_int (round_half_even (\<bar>of_int n / 4 :: rat\<bar> / pow2 e)) * pow2 e =
      (of_int n / 4 :: rat)"
    by (simp add: pow)
  from assms(2) have "(of_int n :: rat) < of_int (2 ^ 53)" by (simp only: of_int_less_iff)
  then have "(of_int n / 4 :: rat) < 2 ^ 1024" by simp
  with assms(1) have "in_range (of_int n / 4) (of_int n / 4) = Finite (of_int n / 4)"
    by (simp add: in_range_def pow2_def)
  then show ?thesis
    by (simp only: round_at_def v)
qed

lemma int_true_div_quarter:
  assumes "0 \<le> n" and "n < 2 ^ 53"
  shows "int_true_div n 4 = Inr (Finite (of_int n / 4))"
proof (cases "n = 0")
  case True
  then show ?thesis by (simp add: int_true_div_def round_double_def)
next
  case False
  with assms(1) have pos: "0 < n" by simp
  from assms(2) have "(of_int n :: rat) < of_int (2 ^ 53)" by (simp only: of_int_less_iff)
  then have "\<bar>of_int n / 4 :: rat\<bar> < 2 ^ Suc 50" using pos by simp
  from floor_log2_less [OF this]
  have "max (floor_log2 \<bar>of_int n / 4 :: rat\<bar> - 52) (- 1074) \<le> - 2" by simp
  from round_at_quarter [OF pos assms(2) this] pos show ?thesis
    by (simp add: int_true_div_def round_double_def)
qed


subsection \<open>Dictionaries\<close>

lemma total_count_dict_add: "total_count (dict_add d k c) = total_count d + c"
  by (induction d k c rule: dict_add.induct) (simp_all add: total_count_def)

subsection \<open>Conservation aggregator\<close>

lemma total_count_index_base_loop:
  "total_count (index_base_loop mcp_len i tab acc) = total_count acc + qualifying_count tab mcp_len"
proof (induction tab arbitrary: acc)
  case Nil
  show ?case by (simp add: qualifying_count_def)
next
  case (Cons entry tab)
  obtain mcp n where entry: "entry = (mcp, n)" by (cases entry)
  show ?case
  proof (cases "length mcp < mcp_len")
    case True
    with Cons.IH [of acc] entry show ?thesis
      by (simp add: qualifying_count_def)
  next
    case False
    with Cons.IH [of "dict_add acc [mcp ! i] n"] entry show ?thesis
      by (simp add: qualifying_count_def total_count_dict_add)
  qed
qed

text \<open>
  Claim C10. \<^verbatim>\<open>build_mcp_cons_dict_list\<close> returns \<open>mcp_len\<close> count mappings, and the counts of
  each of them add up to the same total: the summed table counts of the windows whose
  length is at least \<open>mcp_len\<close>. A shorter window contributes to no position.
\<close>

theorem build_mcp_cons_dict_list_totals:
  "map total_count (build_mcp_cons_dict_list mcp_count_dict mcp_len) =
     replicate mcp_len (qualifying_count mcp_count_dict mcp_len)"
proof -
  have "map total_count (build_mcp_cons_dict_list mcp_count_dict mcp_len) =
          map (\<lambda>i. qualifying_count mcp_count_dict mcp_len) [0..<mcp_len]"
    using total_count_index_base_loop [of mcp_len _ mcp_count_dict "[]"]
    by (simp add: build_mcp_cons_dict_list_def total_count_def [of "[]"])
  then show ?thesis
    by (simp add: map_replicate_const)
qed

subsection \<open>Dictionaries, continued\<close>

lemma keys_dict_add:
  "map fst (dict_add d k c) = (if k \<in> set (map fst d) then map fst d else map fst d @ [k])"
  by (induction d k c rule: dict_add.induct) auto

lemma distinct_keys_dict_add:
  "distinct (map fst d) \<Longrightarrow> distinct (map fst (dict_add d k c))"
  by (simp add: keys_dict_add)

lemma dict_set_fresh: "k \<notin> set (map fst d) \<Longrightarrow> dict_set d k v = d @ [(k, v)]"
  by (induction d k v rule: dict_set.induct) auto

lemma foldl_dict_set_distinct:
  "distinct (map fst (d @ items)) \<Longrightarrow> foldl (\<lambda>d (k, v). dict_set d k v) d items = d @ items"
proof (induction items arbitrary: d)
  case Nil
  show ?case by simp
next
  case (Cons kv items)
  obtain k v where kv: "kv = (k, v)" by (cases kv)
  from Cons.prems kv have fresh: "k \<notin> set (map fst d)" by auto
  from Cons.prems kv have "distinct (map fst ((d @ [(k, v)]) @ items))" by simp
  from Cons.IH [OF this] fresh kv show ?case
    by (simp add: dict_set_fresh)
qed

lemma dict_of_items_distinct: "distinct (map fst items) \<Longrightarrow> dict_of_items items = items"
  using foldl_dict_set_distinct [of "[]" items] by (simp add: dict_of_items_def)

lemma mset_sorted_by_value_desc: "mset (sorted_by_value_desc items) = mset items"
  by (simp add: sorted_by_value_desc_def)

lemma distinct_keys_sorted_by_value_desc:
  "distinct (map fst (sorted_by_value_desc items)) = distinct (map fst items)"
proof -
  have "mset (map fst (sorted_by_value_desc items)) = mset (map fst items)"
    by (simp add: mset_sorted_by_value_desc)
  then show ?thesis by (rule mset_eq_imp_distinct_iff)
qed

lemma total_count_sorted_by_value_desc:
  "total_count (sorted_by_value_desc items) = total_count items"
proof -
  have "mset (map snd (sorted_by_value_desc items)) = mset (map snd items)"
    by (simp add: mset_sorted_by_value_desc)
  then have "sum_mset (mset (map snd (sorted_by_value_desc items))) = sum_mset (mset (map snd items))"
    by simp
  then show ?thesis by (simp only: total_count_def sum_mset_sum_list)
qed

subsection \<open>Prefix extractor\<close>

lemma foldl_Counter_keys:
  "distinct (map fst d) \<Longrightarrow> distinct (map fst (foldl (\<lambda>d x. dict_add d x 1) d xs))"
  by (induction xs arbitrary: d) (simp_all add: distinct_keys_dict_add)

lemma foldl_Counter_total:
  "total_count (foldl (\<lambda>d x. dict_add d x 1) d xs) = total_count d + int (length xs)"
  by (induction xs arbitrary: d) (simp_all add: total_count_dict_add)

lemma distinct_keys_Counter: "distinct (map fst (Counter xs))"
  using foldl_Counter_keys [of "[]" xs] by (simp add: Counter_def)

lemma total_count_Counter: "total_count (Counter xs) = int (length xs)"
  using foldl_Counter_total [of "[]" xs] by (simp add: Counter_def total_count_def)

lemma total_count_fetch_mcp:
  "total_count (fetch_mcp fastq prefix_len start reversed max_line_count) =
     int (length (fetch_loop prefix_len start reversed max_line_count 0 fastq []))"
  by (simp add: fetch_mcp_def Let_def dict_of_items_distinct distinct_keys_sorted_by_value_desc
      distinct_keys_Counter total_count_sorted_by_value_desc total_count_Counter)

lemma records_from_0 [simp]: "records_from i 0 = 0"
  by (simp add: records_from_def)

lemma records_from_Suc:
  "records_from i (Suc n) = (if i mod 4 = 1 then 1 else 0) + records_from (Suc i) n"
proof -
  have "[i..<i + Suc n] = i # [Suc i..<Suc i + n]"
    using upt_conv_Cons [of i "i + Suc n"] by simp
  then show ?thesis
    unfolding records_from_def by (simp only: filter.simps list.size split: if_splits) simp
qed

lemma length_fetch_loop_capped:
  "int (length selected_lines) \<le> m \<Longrightarrow>
   length (fetch_loop prefix_len start reversed (Some m) i lines selected_lines) =
     min (length selected_lines + records_from i (length lines)) (nat (m + 1))"
proof (induction lines arbitrary: i selected_lines)
  case Nil
  then show ?case by simp
next
  case (Cons raw lines)
  show ?case
  proof (cases "i mod 4 = 1")
    case False
    with Cons.IH [of selected_lines "Suc i"] Cons.prems show ?thesis
      by (simp add: records_from_Suc)
  next
    case True
    let ?w = "if \<not> reversed then py_slice (strip str_isspace raw) (start - 1) (start + prefix_len - 1)
              else py_slice (rev (strip str_isspace raw)) (start - 1) (start + prefix_len - 1)"
    show ?thesis
    proof (cases "int (length selected_lines) + 1 > m")
      case True
      with Cons.prems have "nat (m + 1) = Suc (length selected_lines)" by linarith
      with True \<open>i mod 4 = 1\<close> Cons.prems show ?thesis
        by (simp add: records_from_Suc Let_def)
    next
      case False
      then have "int (length (selected_lines @ [?w])) \<le> m" by simp
      from Cons.IH [OF this, of "Suc i"] False \<open>i mod 4 = 1\<close> show ?thesis
        by (cases reversed) (simp_all add: records_from_Suc Let_def)
    qed
  qed
qed

lemma fetch_loop_negative_cap:
  "m < 0 \<Longrightarrow> fetch_loop prefix_len start reversed (Some m) 0 lines [] = []"
  by (cases lines) simp_all

text \<open>
  Claim C7. With a record cap \<open>m\<close>, \<^verbatim>\<open>fetch_mcp\<close> stops once more than \<open>m\<close> windows are
  stored: the counts of the returned table add up to the minimum of the number of sequence
  lines of the file and \<open>m + 1\<close>. (A cap below 0 stops at the first line, with no window:
  \<open>nat (m + 1)\<close> is 0 there.)
\<close>

theorem fetch_mcp_cap:
  "total_count (fetch_mcp fastq prefix_len start reversed (Some m)) =
     int (min (sequence_records fastq) (nat (m + 1)))"
proof (cases "m < 0")
  case True
  then show ?thesis
    by (simp add: total_count_fetch_mcp fetch_loop_negative_cap)
next
  case False
  then have "int (length ([] :: string list)) \<le> m" by simp
  from length_fetch_loop_capped [OF this, of prefix_len start reversed 0 fastq]
  show ?thesis
    by (simp add: total_count_fetch_mcp sequence_records_def records_from_def)
qed

subsection \<open>Consensus resolver: concrete runs\<close>

lemmas resolver_defs =
  build_cons_seq_def is_base_def try_body_def select_cons_bases_def
  dict_of_items_def sorted_by_value_desc_def float_defs

text \<open>
  Claim C6. The window frequency table \<open>{"AT": 9, "GT": 1}\<close> with window length 2 gives the
  position counts \<open>{A: 9, G: 1}\<close> and \<open>{T: 10}\<close>; with read count 10 and threshold 0.8 the
  consensus string is \<open>AT\<close> and the confidences are 0.9 and 1.0, whatever the registry holds.
  The literals 0.8 and 0.9 are the doubles nearest to 8/10 and 9/10.
\<close>

theorem scenario_AT_GT:
  "build_mcp_cons_dict_list [(''AT'', 9), (''GT'', 1)] 2 =
     [[(''A'', 9), (''G'', 1)], [(''T'', 10)]] \<and>
   build_cons_seq registry (build_mcp_cons_dict_list [(''AT'', 9), (''GT'', 1)] 2)
     (PyInt 10) (PyFloat (round_double (8 / 10))) None 1 None =
     Inr (''AT'', [round_double (9 / 10), Finite 1])"
proof -
  have table: "build_mcp_cons_dict_list [(''AT'', 9), (''GT'', 1)] 2 =
     [[(''A'', 9), (''G'', 1)], [(''T'', 10)]]"
    by (simp add: build_mcp_cons_dict_list_def upt_rec)
  have "build_cons_seq registry [[(''A'', 9), (''G'', 1)], [(''T'', 10)]]
     (PyInt 10) (PyFloat (round_double (8 / 10))) None 1 None =
     Inr (''AT'', [round_double (9 / 10), Finite 1])"
    by (simp add: resolver_defs)
  with table show ?thesis by simp
qed

text \<open>
  Claim C3 says that the proportions and the confidence of a position use the same
  denominator. Line 131 divides by \<open>read_count\<close> also when \<open>max_line_count\<close> is given: for
  the position \<open>{A: 5}\<close>, read count 10 and override 5, the proportion of A is \<open>5 / 5 = 1.0\<close>
  and the confidence is \<open>5 / 10 = 0.5\<close>.
\<close>

theorem override_confidence_mismatch:
  "cons_dict_loop (PyInt 10) (Some 5) [(''A'', 5)] ([], 0) = Inr ([(''A'', Finite 1)], 5) \<and>
   build_cons_seq registry [[(''A'', 5)]] (PyInt 10) (PyFloat (round_double (8 / 10))) None 1
     (Some 5) = Inr (''A'', [Finite (1 / 2)])"
  by (simp add: resolver_defs)

subsection \<open>Read count\<close>

lemma int_of_digits_nonneg_aux:
  "list_all (\<lambda>c. 48 \<le> (of_char c :: nat) \<and> (of_char c :: nat) \<le> 57) s \<Longrightarrow> 0 \<le> n \<Longrightarrow>
   0 \<le> foldl (\<lambda>n c. 10 * n + (of_char c - 48)) (n :: int) s"
proof (induction s arbitrary: n)
  case Nil
  then show ?case by simp
next
  case (Cons c s)
  from Cons.prems have "48 \<le> (of_char c :: nat)" by simp
  then have "int 48 \<le> int (of_char c)" by (simp only: of_nat_le_iff)
  then have "(48 :: int) \<le> of_char c" by (simp add: of_nat_of_char)
  with Cons.prems have nonneg: "0 \<le> 10 * n + (of_char c - 48)" by simp
  from Cons.prems have "list_all (\<lambda>c. 48 \<le> (of_char c :: nat) \<and> (of_char c :: nat) \<le> 57) s" by simp
  from Cons.IH [OF this nonneg] show ?case by simp
qed

lemma int_of_digits_nonneg: "isdigit s \<Longrightarrow> 0 \<le> int_of_digits s"
  using int_of_digits_nonneg_aux [of s 0] by (simp add: isdigit_def int_of_digits_def)

text \<open>
  Claim C8 says that the read count is a non-negative integer. For fastq input line 81
  is a true division: ten counted lines give 2.5.
\<close>

theorem get_read_count_fastq_fraction:
  "get_read_count (Some (''10'' @ [CHR 0x0A])) ''fastq'' = Inr (5 / 2) \<and> (5 / 2 :: rat) \<notin> \<int>"
proof -
  have "(5 / 2 :: rat) \<notin> \<int>"
  proof
    assume "(5 / 2 :: rat) \<in> \<int>"
    then obtain k :: int where "(5 / 2 :: rat) = of_int k" by (auto elim: Ints_cases)
    then have "(5 :: rat) = of_int (2 * k)" by simp
    then have "(5 :: int) = 2 * k" by (metis of_int_eq_iff of_int_numeral)
    then show False by presburger
  qed
  then show ?thesis
    by (simp add: get_read_count_def strip_def bytes_isspace_def isdigit_def int_of_digits_def)
qed

text \<open>
  Claim C8, amended. When the stripped output of the counting step is a digit string, the
  number \<open>n\<close> it denotes is not negative; \<^verbatim>\<open>get_read_count\<close> returns \<open>n / 4\<close> (the exact
  quotient) for fastq and \<open>n\<close> for fasta.
\<close>

theorem get_read_count_value:
  assumes "isdigit (strip bytes_isspace out)"
  shows "0 \<le> int_of_digits (strip bytes_isspace out) \<and>
         get_read_count (Some out) ''fastq'' =
           Inr (of_int (int_of_digits (strip bytes_isspace out)) / 4) \<and>
         get_read_count (Some out) ''fasta'' =
           Inr (of_int (int_of_digits (strip bytes_isspace out)))"
  using assms int_of_digits_nonneg [OF assms] by (simp add: get_read_count_def)

theorem get_read_count_value_witness:
  "isdigit (strip bytes_isspace (''12'' @ [CHR 0x0A])) \<and>
   get_read_count (Some (''12'' @ [CHR 0x0A])) ''fastq'' = Inr 3 \<and>
   get_read_count (Some (''12'' @ [CHR 0x0A])) ''fasta'' = Inr 12"
proof -
  have d: "isdigit (strip bytes_isspace (''12'' @ [CHR 0x0A]))"
    by (simp add: strip_def bytes_isspace_def isdigit_def)
  have v: "int_of_digits (strip bytes_isspace (''12'' @ [CHR 0x0A])) = 12"
    by (simp add: strip_def bytes_isspace_def int_of_digits_def)
  from get_read_count_value [OF d] d v show ?thesis
    by simp
qed

subsection \<open>Consensus resolver: candidate selection\<close>

lemma float_ge_trans: "float_le a b \<Longrightarrow> float_ge s b \<Longrightarrow> float_ge s a"
  by (auto simp: float_le_def float_ge_def)

lemma cons_bases_loop_keeps: "set cons_bases \<subseteq> set (cons_bases_loop items t curr_prop cons_bases)"
proof (induction items arbitrary: curr_prop cons_bases)
  case Nil
  show ?case by simp
next
  case (Cons item items)
  obtain b p where item: "item = (b, p)" by (cases item)
  from Cons.IH [of "cons_bases @ [b]" "float_add curr_prop p"] item show ?case
    by auto
qed

lemma cons_bases_loop_mono:
  "number_le t1 t2 \<Longrightarrow>
   set (cons_bases_loop items t1 curr_prop cons_bases) \<subseteq>
   set (cons_bases_loop items t2 curr_prop cons_bases)"
proof (induction items arbitrary: curr_prop cons_bases)
  case Nil
  show ?case by simp
next
  case (Cons item items)
  obtain b p where item: "item = (b, p)" by (cases item)
  let ?s = "float_add curr_prop p"
  from Cons.prems have le: "float_le (value_of t1) (value_of t2)"
    by (simp add: number_le_def)
  consider (both) "float_ge ?s (value_of t2)"
    | (first) "float_ge ?s (value_of t1)" "\<not> float_ge ?s (value_of t2)"
    | (neither) "\<not> float_ge ?s (value_of t1)" "\<not> float_ge ?s (value_of t2)"
    by blast
  then show ?case
  proof cases
    case both
    with float_ge_trans [OF le both] item show ?thesis by simp
  next
    case first
    with item cons_bases_loop_keeps [of "cons_bases @ [b]" items t2 ?s]
    show ?thesis by simp
  next
    case neither
    with item Cons.IH [OF Cons.prems, of ?s "cons_bases @ [b]"]
    show ?thesis by simp
  qed
qed

text \<open>
  Claim C5. For a fixed mapping of proportions (so for a fixed position count mapping,
  denominator and order of ties) and thresholds with \<^verbatim>\<open>t1 <= t2\<close>, every base selected at
  \<open>t1\<close> is selected at \<open>t2\<close>. The running sums do not depend on the threshold, and the proof
  uses only that \<^verbatim>\<open><=\<close> is transitive, not how the sums are rounded.
\<close>

theorem threshold_monotone:
  "number_le t1 t2 \<Longrightarrow>
   set (select_cons_bases cons_dict t1) \<subseteq> set (select_cons_bases cons_dict t2)"
  by (simp add: select_cons_bases_def cons_bases_loop_mono)

theorem threshold_monotone_witness:
  "number_le (PyFloat (round_double (8 / 10))) (PyFloat (round_double (95 / 100))) \<and>
   select_cons_bases [(''A'', round_double (9 / 10)), (''G'', round_double (1 / 10))]
     (PyFloat (round_double (8 / 10))) = [''A''] \<and>
   select_cons_bases [(''A'', round_double (9 / 10)), (''G'', round_double (1 / 10))]
     (PyFloat (round_double (95 / 100))) = [''A'', ''G''] \<and>
   set (select_cons_bases [(''A'', round_double (9 / 10)), (''G'', round_double (1 / 10))]
          (PyFloat (round_double (8 / 10)))) \<subseteq>
   set (select_cons_bases [(''A'', round_double (9 / 10)), (''G'', round_double (1 / 10))]
          (PyFloat (round_double (95 / 100))))"
proof -
  have le: "number_le (PyFloat (round_double (8 / 10))) (PyFloat (round_double (95 / 100)))"
    by (simp add: number_le_def float_defs)
  have "select_cons_bases [(''A'', round_double (9 / 10)), (''G'', round_double (1 / 10))]
          (PyFloat (round_double (8 / 10))) = [''A'']"
    and "select_cons_bases [(''A'', round_double (9 / 10)), (''G'', round_double (1 / 10))]
          (PyFloat (round_double (95 / 100))) = [''A'', ''G'']"
    by (simp_all add: select_cons_bases_def dict_of_items_def sorted_by_value_desc_def float_defs)
  with le threshold_monotone
      [OF le, of "[(''A'', round_double (9 / 10)), (''G'', round_double (1 / 10))]"]
  show ?thesis by simp
qed

subsection \<open>Consensus resolver: positions without a concrete base, zero read counts\<close>

lemma float_of_int_0: "float_of_int 0 = Inr (Finite 0)"
  by (simp add: float_of_int_def round_double_def)

lemma true_div_zero: "is_zero read_count \<Longrightarrow> true_div 0 read_count = Inl ZeroDivisionError"
  by (cases read_count)
     (simp_all add: is_zero_def int_true_div_def float_of_int_0 float_div_def)

lemma true_div_no_zero_fault:
  "\<not> is_zero read_count \<Longrightarrow> true_div a read_count \<noteq> Inl ZeroDivisionError"
  by (cases read_count)
     (auto simp: is_zero_def int_true_div_def float_of_int_def float_div_def
           split: float.splits sum.splits)

lemma true_div_0_returns:
  "\<not> is_zero read_count \<Longrightarrow> \<exists>max_prop. true_div 0 read_count = Inr max_prop"
  by (cases read_count)
     (simp_all add: is_zero_def int_true_div_def float_of_int_0 float_div_def round_double_def)

lemma cons_dict_loop_no_base:
  "list_all (\<lambda>(base, cnt). \<not> is_base base) count_dict \<Longrightarrow>
   cons_dict_loop read_count max_line_count count_dict (cons_dict, max_count) =
     Inr (cons_dict, max_count)"
  by (induction count_dict) auto

lemma select_cons_bases_empty: "select_cons_bases [] t = []"
  by (simp add: select_cons_bases_def dict_of_items_def sorted_by_value_desc_def)

lemma try_body_empty:
  "\<not> is_zero read_count \<Longrightarrow> registry [] = None \<Longrightarrow>
   try_body registry read_count t [] 0 cons_seq = Inl (KeyError [])"
  using true_div_0_returns [of read_count]
  by (auto simp: try_body_def select_cons_bases_empty)

lemma try_body_zero_read_count:
  "is_zero read_count \<Longrightarrow>
   try_body registry read_count t cons_dict 0 cons_seq = Inl ZeroDivisionError"
  by (simp add: try_body_def true_div_zero)

text \<open>
  At a position that is not a forced gap and holds none of A, T, C, G, the division of
  line 131 is \<open>0 / read_count\<close>: where the read count is not zero, the loop stops with the
  lookup error for the empty key, provided the registry has no entry for the empty string.
\<close>

lemma no_base_position_key_error:
  assumes "counter \<notin> set do_not_include"
    and "list_all (\<lambda>(base, cnt). \<not> is_base base) count_dict"
    and "\<not> is_zero read_count"
    and "registry [] = None"
  shows "cons_list_loop registry read_count t do_not_include max_line_count
           (count_dict # rest) (counter, cons_seq, cons_confs) = Inl (KeyError [])"
  using assms by (simp add: cons_dict_loop_no_base try_body_empty)

text \<open>
  Claim C9 says that a position that is not a forced gap and holds none of A, T, C, G ends
  in the lookup error for the empty key whenever its denominator is not zero. With the
  override 5 the denominator is 5, and \<open>0 / 5\<close> raises nothing; but line 131 divides by the
  read count also when the override is given, so with read count 0 the fault is caught:
  the position \<open>{N: 3}\<close> gets the confidence 0.0 and no symbol, and the function returns. With
  read count 10 the same call raises the lookup error, as the claim says.
\<close>

theorem no_base_position_zero_read_count:
  "true_div 0 (PyInt 5) = Inr (Finite 0) \<and>
   build_cons_seq AMBIGUOUS_BASES_DICT_REV [[(''N'', 3)]] (PyInt 0)
     (PyFloat (round_double (8 / 10))) None 1 (Some 5) = Inr ([], [Finite 0]) \<and>
   build_cons_seq AMBIGUOUS_BASES_DICT_REV [[(''N'', 3)]] (PyInt 10)
     (PyFloat (round_double (8 / 10))) None 1 (Some 5) = Inl (KeyError [])"
  by (simp add: build_cons_seq_def is_base_def try_body_zero_read_count try_body_empty
      is_zero_def int_true_div_def round_double_def AMBIGUOUS_BASES_DICT_REV_def)

text \<open>
  Claim C1, amended. At a position that is not a forced gap and holds none of A, T, C, G,
  when the total read count is zero and the override is absent or zero too, the fault of
  \<open>max_count / read_count\<close> is caught: the confidence 0.0 is appended, no symbol is added to
  the consensus string, and the loop goes on with the next position.
\<close>

theorem zero_read_count_position:
  assumes "counter \<notin> set do_not_include"
    and "list_all (\<lambda>(base, cnt). \<not> is_base base) count_dict"
    and "is_zero read_count"
    and "max_line_count = None \<or> max_line_count = Some 0"
  shows "cons_list_loop registry read_count t do_not_include max_line_count
           (count_dict # rest) (counter, cons_seq, cons_confs) =
         cons_list_loop registry read_count t do_not_include max_line_count
           rest (counter + 1, cons_seq, cons_confs @ [Finite 0])"
  using assms by (simp add: cons_dict_loop_no_base try_body_zero_read_count)

theorem zero_read_count_position_witness:
  "(1 :: int) \<notin> set [] \<and> list_all (\<lambda>(base, cnt). \<not> is_base base) [(''N'', 3 :: int)] \<and>
   is_zero (PyInt 0) \<and>
   build_cons_seq AMBIGUOUS_BASES_DICT_REV [[(''N'', 3)], []] (PyInt 0)
       (PyFloat (round_double (8 / 10))) None 1 None =
     cons_list_loop AMBIGUOUS_BASES_DICT_REV (PyInt 0) (PyFloat (round_double (8 / 10))) [] None
       [[]] (2, [], [Finite 0]) \<and>
   build_cons_seq AMBIGUOUS_BASES_DICT_REV [[(''N'', 3)], []] (PyInt 0)
       (PyFloat (round_double (8 / 10))) None 1 None = Inr ([], [Finite 0, Finite 0])"
proof -
  have h1: "(1 :: int) \<notin> set []" by simp
  have h2: "list_all (\<lambda>(base, cnt). \<not> is_base base) [(''N'', 3 :: int)]"
    by (simp add: is_base_def)
  have h3: "is_zero (PyInt 0)" by (simp add: is_zero_def)
  have h4: "(None :: int option) = None \<or> (None :: int option) = Some 0" by simp
  from zero_read_count_position
      [where counter = 1 and do_not_include = "[]" and count_dict = "[(''N'', 3)]"
         and read_count = "PyInt 0" and max_line_count = None
         and registry = AMBIGUOUS_BASES_DICT_REV and t = "PyFloat (round_double (8 / 10))"
         and rest = "[[]]" and cons_seq = "[]" and cons_confs = "[]", OF h1 h2 h3 h4] h1 h2 h3
  show ?thesis by (simp add: build_cons_seq_def try_body_zero_read_count)
qed

text \<open>
  Claim C1 as stated fails: with read count 0 the positions \<open>{N: 3}\<close> and \<open>{N: 2}\<close> get
  confidence 0.0 and no symbol at all; a position with a concrete base raises at line 121
  (or 123 with a zero override), outside the \<^verbatim>\<open>try\<close> block.
\<close>

theorem zero_denominator_counterexample:
  "build_cons_seq AMBIGUOUS_BASES_DICT_REV [[(''N'', 3)], [(''N'', 2)]] (PyInt 0)
     (PyFloat (round_double (8 / 10))) None 1 None = Inr ([], [Finite 0, Finite 0]) \<and>
   build_cons_seq AMBIGUOUS_BASES_DICT_REV [[(''A'', 3)]] (PyInt 0)
     (PyFloat (round_double (8 / 10))) None 1 None = Inl ZeroDivisionError \<and>
   build_cons_seq AMBIGUOUS_BASES_DICT_REV [[(''A'', 3)]] (PyInt 10)
     (PyFloat (round_double (8 / 10))) None 1 (Some 0) = Inl ZeroDivisionError"
  by (simp add: build_cons_seq_def is_base_def try_body_zero_read_count is_zero_def
      int_true_div_def)

subsection \<open>Consensus resolver: the selection loop and the smallest prefix\<close>

lemma keys_dict_set:
  "map fst (dict_set d k v) = (if k \<in> set (map fst d) then map fst d else map fst d @ [k])"
  by (induction d k v rule: dict_set.induct) auto

lemma cons_dict_loop_keys:
  "cons_dict_loop read_count max_line_count count_dict (cons_dict0, max_count0) =
     Inr (cons_dict, max_count) \<Longrightarrow>
   distinct (map fst cons_dict0) \<Longrightarrow> list_all is_base (map fst cons_dict0) \<Longrightarrow>
   distinct (map fst cons_dict) \<and> list_all is_base (map fst cons_dict)"
proof (induction count_dict arbitrary: cons_dict0 max_count0)
  case Nil
  then show ?case by simp
next
  case (Cons entry count_dict)
  obtain b c where entry: "entry = (b, c)" by (cases entry)
  show ?case
  proof (cases "is_base b")
    case False
    with Cons.prems entry Cons.IH [of cons_dict0 max_count0] show ?thesis by simp
  next
    case True
    let ?q = "case max_line_count of None \<Rightarrow> true_div c read_count
              | Some m \<Rightarrow> true_div c (PyInt m)"
    from Cons.prems(1) entry True obtain p where q: "?q = Inr p"
      by (cases ?q) simp_all
    with Cons.prems(1) entry True
    have run: "cons_dict_loop read_count max_line_count count_dict
                 (dict_set cons_dict0 b p, if c > max_count0 then c else max_count0) =
               Inr (cons_dict, max_count)"
      by simp
    from Cons.prems(2) have d: "distinct (map fst (dict_set cons_dict0 b p))"
      by (simp add: keys_dict_set)
    from Cons.prems(3) True have a: "list_all is_base (map fst (dict_set cons_dict0 b p))"
      by (simp add: keys_dict_set)
    from Cons.IH [OF run d a] show ?thesis .
  qed
qed

text \<open>The proportions of one position are all \<^verbatim>\<open>nan\<close>, or none of them is.\<close>

lemma round_double_not_nan: "round_double q \<noteq> NaN"
  by (simp add: round_double_def round_at_def in_range_def)

lemma true_div_nan:
  "true_div a d = Inr p \<Longrightarrow> p = NaN \<longleftrightarrow> d = PyFloat NaN"
proof (cases d)
  case (PyInt b)
  assume "true_div a d = Inr p"
  with PyInt show ?thesis
    by (auto simp: int_true_div_def split: if_splits float.splits)
next
  case (PyFloat y)
  assume run: "true_div a d = Inr p"
  with PyFloat obtain x where x: "float_of_int a = Inr (Finite x)"
    by (auto simp: float_of_int_def split: float.splits sum.splits)
  with run PyFloat have p: "y \<noteq> Finite 0" "p = ieee_div (Finite x) y"
    by (auto simp: float_div_def split: if_splits)
  then show ?thesis
    using PyFloat round_double_not_nan [of "x / float_mag y"] by (cases y) auto
qed

lemma set_dict_set: "set (dict_set d k v) \<subseteq> insert (k, v) (set d)"
  by (induction d k v rule: dict_set.induct) auto

lemma cons_dict_loop_nan_aux:
  "cons_dict_loop read_count max_line_count count_dict (cons_dict0, max_count0) =
     Inr (cons_dict, max_count) \<Longrightarrow>
   \<forall>(base, prop) \<in> set cons_dict0.
      prop = NaN \<longleftrightarrow> read_count = PyFloat NaN \<and> max_line_count = None \<Longrightarrow>
   \<forall>(base, prop) \<in> set cons_dict.
      prop = NaN \<longleftrightarrow> read_count = PyFloat NaN \<and> max_line_count = None"
proof (induction count_dict arbitrary: cons_dict0 max_count0)
  case Nil
  then show ?case by simp
next
  case (Cons entry count_dict)
  obtain b c where entry: "entry = (b, c)" by (cases entry)
  show ?case
  proof (cases "is_base b")
    case False
    with Cons.prems entry Cons.IH [of cons_dict0 max_count0] show ?thesis by simp
  next
    case True
    let ?d = "case max_line_count of None \<Rightarrow> read_count | Some m \<Rightarrow> PyInt m"
    have q_eq: "(case max_line_count of None \<Rightarrow> true_div c read_count
                 | Some m \<Rightarrow> true_div c (PyInt m)) = true_div c ?d"
      by (cases max_line_count) simp_all
    from Cons.prems(1) entry True obtain p where q: "true_div c ?d = Inr p"
      by (cases "true_div c ?d") (simp_all add: q_eq)
    with Cons.prems(1) entry True
    have run: "cons_dict_loop read_count max_line_count count_dict
                 (dict_set cons_dict0 b p, if c > max_count0 then c else max_count0) =
               Inr (cons_dict, max_count)"
      by (simp add: q_eq)
    from true_div_nan [OF q]
    have "p = NaN \<longleftrightarrow> read_count = PyFloat NaN \<and> max_line_count = None"
      by (cases max_line_count) simp_all
    with Cons.prems(2) set_dict_set [of cons_dict0 b p]
    have "\<forall>(base, prop) \<in> set (dict_set cons_dict0 b p).
            prop = NaN \<longleftrightarrow> read_count = PyFloat NaN \<and> max_line_count = None"
      by auto
    from Cons.IH [OF run this] show ?thesis .
  qed
qed

lemma cons_dict_loop_nan:
  "cons_dict_loop read_count max_line_count count_dict ([], 0) = Inr (cons_dict, max_count) \<Longrightarrow>
   list_all (\<lambda>(base, prop). prop = NaN) cons_dict \<or>
   list_all (\<lambda>(base, prop). prop \<noteq> NaN) cons_dict"
  using cons_dict_loop_nan_aux [of read_count max_line_count count_dict "[]" 0 cons_dict max_count]
  by (cases "read_count = PyFloat NaN \<and> max_line_count = None")
     (auto simp: list_all_iff)










subsection \<open>Consensus resolver: length of the consensus string\<close>

lemma is_base_length: "is_base b \<Longrightarrow> length b = 1"
  by (auto simp: is_base_def)

lemma cons_bases_loop_subset:
  "set (cons_bases_loop items t curr_prop cons_bases) \<subseteq> set cons_bases \<union> fst ` set items"
proof (induction items arbitrary: curr_prop cons_bases)
  case Nil
  show ?case by simp
next
  case (Cons item items)
  obtain b p where item: "item = (b, p)" by (cases item)
  from Cons.IH [of "float_add curr_prop p" "cons_bases @ [b]"] item show ?case
    by auto
qed

lemma select_cons_bases_keys:
  "distinct (map fst cons_dict) \<Longrightarrow>
   set (select_cons_bases cons_dict t) \<subseteq> fst ` set cons_dict"
proof -
  assume "distinct (map fst cons_dict)"
  then have "dict_of_items (sorted_by_value_desc cons_dict) = sorted_by_value_desc cons_dict"
    by (simp add: dict_of_items_distinct distinct_keys_sorted_by_value_desc)
  moreover have "set (sorted_by_value_desc cons_dict) = set cons_dict"
    by (simp add: sorted_by_value_desc_def)
  ultimately show ?thesis
    using cons_bases_loop_subset [of "sorted_by_value_desc cons_dict" t "Finite 0" "[]"]
    by (simp add: select_cons_bases_def)
qed

lemma try_body_one_symbol:
  assumes "distinct (map fst cons_dict)"
    and "list_all is_base (map fst cons_dict)"
    and "\<forall>key amb_base. registry key = Some amb_base \<longrightarrow> length amb_base = 1"
    and "try_body registry read_count t cons_dict max_count cons_seq = Inr (max_prop, cons_seq')"
  shows "\<exists>symbol. cons_seq' = cons_seq @ [symbol]"
proof -
  let ?bases = "sort (select_cons_bases cons_dict t)"
  from assms(4) obtain q where q: "true_div max_count read_count = Inr q"
    by (cases "true_div max_count read_count") (simp_all add: try_body_def)
  show ?thesis
  proof (cases "length ?bases = 1")
    case True
    then have "?bases ! 0 \<in> set ?bases" by (simp del: set_sort)
    then have "?bases ! 0 \<in> fst ` set cons_dict"
      using select_cons_bases_keys [OF assms(1), of t] by auto
    with assms(2) have "is_base (?bases ! 0)"
      by (auto simp: list_all_iff)
    then have "length (?bases ! 0) = 1" by (rule is_base_length)
    then obtain symbol where "?bases ! 0 = [symbol]"
      by (cases "?bases ! 0") auto
    with assms(4) True q show ?thesis
      by (auto simp: try_body_def Let_def)
  next
    case False
    with assms(4) q obtain amb_base where
      look: "registry (join '','' ?bases) = Some amb_base" and
      res: "cons_seq' = cons_seq @ amb_base"
      by (auto simp: try_body_def Let_def split: option.splits)
    from assms(3) look have "length amb_base = 1" by blast
    then obtain symbol where "amb_base = [symbol]"
      by (cases amb_base) auto
    with res show ?thesis by simp
  qed
qed

lemma try_body_no_fault:
  "\<not> is_zero read_count \<Longrightarrow>
   try_body registry read_count t cons_dict max_count cons_seq \<noteq> Inl ZeroDivisionError"
  using true_div_no_zero_fault [of read_count max_count]
  by (auto simp: try_body_def Let_def split: option.splits sum.splits)

lemma cons_list_loop_length:
  assumes nz: "\<not> is_zero read_count"
    and reg: "\<forall>key amb_base. registry key = Some amb_base \<longrightarrow> length amb_base = 1"
  shows "cons_list_loop registry read_count t do_not_include max_line_count cons_list
           (counter, cons_seq0, cons_confs0) = Inr (cons_seq, cons_confs) \<Longrightarrow>
         \<exists>symbols. cons_seq = cons_seq0 @ symbols \<and> length symbols = length cons_list \<and>
           (\<forall>i < length cons_list. counter + int i \<in> set do_not_include \<longrightarrow>
              symbols ! i = CHR ''N'')"
proof (induction cons_list arbitrary: counter cons_seq0 cons_confs0)
  case Nil
  then show ?case by simp
next
  case (Cons count_dict rest)
  have step: "\<exists>symbols. cons_seq = cons_seq0 @ symbols \<and>
        length symbols = length (count_dict # rest) \<and>
        (\<forall>i < length (count_dict # rest). counter + int i \<in> set do_not_include \<longrightarrow>
           symbols ! i = CHR ''N'')"
    if run: "cons_list_loop registry read_count t do_not_include max_line_count rest
               (counter + 1, cons_seq0 @ [symbol], confs1) = Inr (cons_seq, cons_confs)"
      and gap: "counter \<in> set do_not_include \<longrightarrow> symbol = CHR ''N''"
    for symbol confs1
  proof -
    from Cons.IH [OF run] obtain symbols where
      s: "cons_seq = (cons_seq0 @ [symbol]) @ symbols" and
      l: "length symbols = length rest" and
      n: "\<forall>i < length rest. counter + 1 + int i \<in> set do_not_include \<longrightarrow>
            symbols ! i = CHR ''N''"
      by blast
    have "\<forall>i < length (count_dict # rest). counter + int i \<in> set do_not_include \<longrightarrow>
            (symbol # symbols) ! i = CHR ''N''"
    proof (intro allI impI)
      fix i
      assume i: "i < length (count_dict # rest)"
        and m: "counter + int i \<in> set do_not_include"
      show "(symbol # symbols) ! i = CHR ''N''"
      proof (cases i)
        case 0
        with m gap show ?thesis by simp
      next
        case (Suc j)
        with i have "j < length rest" by simp
        moreover from Suc m have "counter + 1 + int j \<in> set do_not_include"
          by (simp add: add.assoc)
        ultimately have "symbols ! j = CHR ''N''" using n by blast
        with Suc show ?thesis by simp
      qed
    qed
    with s l show ?thesis
      by (intro exI [of _ "symbol # symbols"]) simp
  qed
  show ?case
  proof (cases "counter \<in> set do_not_include")
    case True
    with Cons.prems have "cons_list_loop registry read_count t do_not_include max_line_count rest
        (counter + 1, cons_seq0 @ [CHR ''N''], cons_confs0) = Inr (cons_seq, cons_confs)"
      by simp
    then show ?thesis by (rule step) simp
  next
    case False
    from Cons.prems False obtain cons_dict max_count where
      cd: "cons_dict_loop read_count max_line_count count_dict ([], 0) = Inr (cons_dict, max_count)"
      by (cases "cons_dict_loop read_count max_line_count count_dict ([], 0)") auto
    from cons_dict_loop_keys [OF cd]
    have keys: "distinct (map fst cons_dict)" "list_all is_base (map fst cons_dict)"
      by simp_all
    let ?attempt = "try_body registry read_count t cons_dict max_count cons_seq0"
    from Cons.prems False cd try_body_no_fault [OF nz, of registry t cons_dict max_count cons_seq0]
    obtain max_prop cons_seq' where
      tb: "?attempt = Inr (max_prop, cons_seq')"
      by (cases ?attempt) (auto split: error.splits)
    from try_body_one_symbol [OF keys reg tb] obtain symbol where
      sym: "cons_seq' = cons_seq0 @ [symbol]" by blast
    from Cons.prems False cd tb sym
    have "cons_list_loop registry read_count t do_not_include max_line_count rest
        (counter + 1, cons_seq0 @ [symbol], cons_confs0 @ [max_prop]) = Inr (cons_seq, cons_confs)"
      by simp
    then show ?thesis by (rule step) (simp add: False)
  qed
qed

text \<open>
  Claim C2, amended. With a read count other than 0 and a registry whose values are single
  symbols, whenever \<^verbatim>\<open>build_cons_seq\<close> returns, the consensus string has one symbol for each
  position of the conservation table, and the symbol of a forced-gap position (the position
  \<open>i\<close>, counted from 0, whose number \<open>counter + i\<close> is in \<open>do_not_include\<close>) is N.
\<close>

theorem consensus_length:
  assumes "\<not> is_zero read_count"
    and "\<forall>key amb_base. registry key = Some amb_base \<longrightarrow> length amb_base = 1"
    and "build_cons_seq registry cons_list read_count cons_threshold do_not_include counter
           max_line_count = Inr (cons_seq, cons_confs)"
  shows "length cons_seq = length cons_list \<and>
         (\<forall>i < length cons_list.
            counter + int i \<in> set (case do_not_include of None \<Rightarrow> [] | Some positions \<Rightarrow> positions)
            \<longrightarrow> cons_seq ! i = CHR ''N'')"
proof -
  from assms(3) cons_list_loop_length [OF assms(1) assms(2)]
  obtain symbols where "cons_seq = [] @ symbols" and "length symbols = length cons_list"
    and "\<forall>i < length cons_list.
            counter + int i \<in> set (case do_not_include of None \<Rightarrow> [] | Some positions \<Rightarrow> positions)
            \<longrightarrow> symbols ! i = CHR ''N''"
    unfolding build_cons_seq_def by blast
  then show ?thesis by simp
qed

lemma registry_single_symbols:
  "\<forall>key amb_base. AMBIGUOUS_BASES_DICT_REV key = Some amb_base \<longrightarrow> length amb_base = 1"
  by (auto simp: AMBIGUOUS_BASES_DICT_REV_def split: if_splits)

theorem consensus_length_witness:
  "\<not> is_zero (PyInt 10) \<and>
   build_cons_seq AMBIGUOUS_BASES_DICT_REV
     [[(''A'', 5), (''C'', 5)], [(''T'', 10)], [(''G'', 9), (''N'', 1)]] (PyInt 10)
     (PyFloat (round_double (8 / 10))) (Some [2]) 1 None =
     Inr (''MNG'', [Finite (1 / 2), round_double (9 / 10)]) \<and>
   length ''MNG'' = length [[(''A'', 5 :: int), (''C'', 5)], [(''T'', 10)], [(''G'', 9), (''N'', 1)]] \<and>
   ''MNG'' ! 1 = CHR ''N''"
proof -
  have h1: "\<not> is_zero (PyInt 10)" by (simp add: is_zero_def)
  have h3: "build_cons_seq AMBIGUOUS_BASES_DICT_REV
     [[(''A'', 5), (''C'', 5)], [(''T'', 10)], [(''G'', 9), (''N'', 1)]] (PyInt 10)
     (PyFloat (round_double (8 / 10))) (Some [2]) 1 None =
     Inr (''MNG'', [Finite (1 / 2), round_double (9 / 10)])"
    by (simp add: resolver_defs AMBIGUOUS_BASES_DICT_REV_def)
  from consensus_length [OF h1 registry_single_symbols h3] h1 h3
  show ?thesis by simp
qed

text \<open>
  Claim C2 as stated fails: an empty window table (an empty file, whose read count is 0)
  with window length 2 gives two empty position mappings, and the consensus string
  returned for them is empty.
\<close>

theorem empty_file_consensus_shorter:
  "build_mcp_cons_dict_list [] 2 = [[], []] \<and>
   build_cons_seq AMBIGUOUS_BASES_DICT_REV (build_mcp_cons_dict_list [] 2) (PyInt 0)
     (PyFloat (round_double (8 / 10))) None 1 None = Inr ([], [Finite 0, Finite 0]) \<and>
   length ([] :: string) \<noteq> length (build_mcp_cons_dict_list [] 2)"
proof -
  have table: "build_mcp_cons_dict_list [] 2 = [[], []]"
    by (simp add: build_mcp_cons_dict_list_def upt_rec)
  have "build_cons_seq AMBIGUOUS_BASES_DICT_REV [[], []] (PyInt 0)
     (PyFloat (round_double (8 / 10))) None 1 None = Inr ([], [Finite 0, Finite 0])"
    by (simp add: build_cons_seq_def try_body_zero_read_count is_zero_def)
  with table show ?thesis by simp
qed

end
